theory Spec2Isabelle
  imports Complex_Main "HOL-Library.Multiset" "HOL-Library.Sublist"
begin

section \<open>Data model\<close>

text \<open>
  A Python \<open>str\<close> is a sequence of Unicode code points and \<open>len\<close> counts code points, so a
  \<open>str\<close> is modelled as the list of its code points. \<open>ustr\<close> reads an ASCII literal.
\<close>

type_synonym ustring = "nat list"

definition ustr :: "string \<Rightarrow> ustring" where
  "ustr s = map of_char s"

text \<open>
  \<open>src/models/post.py\<close>: the dataclass \<open>Post\<close>. The field \<open>id\<close> is written \<open>post_id\<close>
  here (\<open>id\<close> is the identity function of HOL).
\<close>

record Post =
  post_id :: int
  user_id :: int
  title :: ustring
  body :: ustring

text \<open>
  \<open>src/models/user.py\<close>: the model \<open>User\<close>, with its three derived fields. The field \<open>id\<close>
  is written \<open>uid\<close>. A Python \<open>float\<close> is modelled by the real number it stands for;
  \<open>total_chars / len(user_posts)\<close> is then the exact quotient.
\<close>

record User =
  uid :: int
  name :: ustring
  username :: ustring
  email :: ustring
  posts :: "Post list"
  post_count :: int
  avg_chars :: real

section \<open>Aggregation: \<open>DataProcessor.calculate_metrics\<close>\<close>

text \<open>
  \<open>str.strip()\<close> without argument removes leading and trailing whitespace; the whitespace
  code points of a Python \<open>str\<close> are the ones below.
\<close>

definition is_space :: "nat \<Rightarrow> bool" where
  "is_space c \<longleftrightarrow>
     (9 \<le> c \<and> c \<le> 13) \<or> (28 \<le> c \<and> c \<le> 32) \<or> c = 133 \<or> c = 160 \<or> c = 5760 \<or>
     (8192 \<le> c \<and> c \<le> 8202) \<or> c = 8232 \<or> c = 8233 \<or> c = 8239 \<or> c = 8287 \<or> c = 12288"

definition strip :: "ustring \<Rightarrow> ustring" where
  "strip s = rev (dropWhile is_space (rev (dropWhile is_space s)))"

text \<open>
  The body of the \<open>try\<close> block. With a \<open>User\<close> and a list of \<open>Post\<close> as arguments no
  statement of the block raises (the division is guarded by \<open>if user_posts\<close>), so the
  \<open>except\<close> branch that wraps an exception into \<open>ProcessingError\<close> is not reached and the
  function returns the updated user. The assignments update the user object in place; the
  model returns the updated record.
\<close>

definition calculate_metrics :: "User \<Rightarrow> Post list \<Rightarrow> User" where
  "calculate_metrics user all_posts =
     (let user_posts = filter (\<lambda>post. user_id post = uid user) all_posts;
          user1 = user\<lparr>posts := user_posts\<rparr>;
          user2 = user1\<lparr>post_count := int (length user_posts)\<rparr>
      in if user_posts \<noteq> []
         then (let total_chars = sum_list (map (\<lambda>post. int (length (strip (body post)))) user_posts)
               in user2\<lparr>avg_chars := real_of_int total_chars / real (length user_posts)\<rparr>)
         else user2\<lparr>avg_chars := 0\<rparr>)"


section \<open>Ordering: \<open>sort_users_by_post_count\<close> (\<open>src/utils/helpers.py\<close>)\<close>

text \<open>
  Python's \<open>sorted(xs, key=k, reverse=r)\<close> is a stable sort by the key; with \<open>reverse=True\<close>
  the list is reversed, sorted stably in ascending order of the key and reversed again, so
  that elements with equal keys keep their order. \<open>sort_key\<close> is the stable insertion sort
  of HOL.
\<close>

definition sorted_py :: "('a \<Rightarrow> int) \<Rightarrow> bool \<Rightarrow> 'a list \<Rightarrow> 'a list" where
  "sorted_py key reverse xs =
     (if reverse then rev (sort_key key (rev xs)) else sort_key key xs)"

text \<open>The key \<open>lambda x: x.post_count or 0\<close>: the count when it is truthy, else \<open>0\<close>.\<close>

definition post_count_or_0 :: "User \<Rightarrow> int" where
  "post_count_or_0 x = (if post_count x \<noteq> 0 then post_count x else 0)"

definition sort_users_by_post_count :: "User list \<Rightarrow> User list" where
  "sort_users_by_post_count users = sorted_py post_count_or_0 True users"

section \<open>Validation gate: \<open>DataProcessor.validate_users\<close>\<close>

text \<open>The exceptions that the modelled functions raise or let through.\<close>

datatype error = APIError | ValueError | TypeError | OSError

datatype log_level = ERROR | WARNING

text \<open>
  The function returns nothing; the model returns the levels of the records it logs and
  either the exception or \<open>()\<close>. \<open>not user.post_count\<close> holds for the count \<open>0\<close>.
\<close>

definition validate_users :: "User list \<Rightarrow> log_level list \<times> (error + unit)" where
  "validate_users users =
     (if users = [] then ([ERROR], Inl ValueError)
      else if list_ex (\<lambda>user. \<not> (post_count user \<noteq> 0)) users then ([WARNING], Inr ())
      else ([], Inr ()))"

section \<open>The API client (\<open>src/api/client.py\<close>)\<close>

text \<open>
  The body of a response, as \<open>response.json()\<close> returns it: a JSON value. \<open>None\<close> is
  \<open>JNull\<close>. A dictionary keeps its keys in insertion order.
\<close>

datatype json =
    JNull
  | JBool bool
  | JInt int
  | JFloat real
  | JStr ustring
  | JList "json list"
  | JObj "(ustring \<times> json) list"

type_synonym dict = "(ustring \<times> json) list"

text \<open>\<open>d[k] = v\<close>: an existing key keeps its place, a new key goes to the end.\<close>

fun dict_set :: "ustring \<Rightarrow> json \<Rightarrow> dict \<Rightarrow> dict" where
  "dict_set k v [] = [(k, v)]"
| "dict_set k v ((k', v') # d) =
     (if k' = k then (k, v) # d else (k', v') # dict_set k v d)"

text \<open>The truth value of a Python object, as \<open>not response\<close> and \<open>params or {}\<close> test it.\<close>

fun truthy :: "json \<Rightarrow> bool" where
  "truthy JNull = False"
| "truthy (JBool b) = b"
| "truthy (JInt i) = (i \<noteq> 0)"
| "truthy (JFloat r) = (r \<noteq> 0)"
| "truthy (JStr s) = (s \<noteq> [])"
| "truthy (JList xs) = (xs \<noteq> [])"
| "truthy (JObj kvs) = (kvs \<noteq> [])"

text \<open>
  The elements that \<open>results.extend(response)\<close> appends: the elements of a list, the keys
  of a dictionary, the characters of a string; any other value is not iterable and
  \<open>extend\<close> raises \<open>TypeError\<close>. For the iterable values \<open>len(response)\<close> is the number of
  these elements.
\<close>

fun iter_json :: "json \<Rightarrow> error + json list" where
  "iter_json (JList xs) = Inr xs"
| "iter_json (JObj kvs) = Inr (map (\<lambda>kv. JStr (fst kv)) kvs)"
| "iter_json (JStr s) = Inr (map (\<lambda>c. JStr [c]) s)"
| "iter_json JNull = Inl TypeError"
| "iter_json (JBool b) = Inl TypeError"
| "iter_json (JInt i) = Inl TypeError"
| "iter_json (JFloat r) = Inl TypeError"

text \<open>
  The client object: the fields that \<open>__init__\<close> sets (\<open>page_size = 100\<close>, \<open>max_pages = 10\<close>,
  \<open>max_retries\<close> from the settings, \<open>3\<close> by default). The HTTP session is part of the
  environment below.
\<close>

record APIClient =
  base_url :: ustring
  page_size :: int
  max_pages :: int
  timeout :: int
  max_retries :: int

text \<open>
  The environment of a run. \<open>http n url params\<close> is the outcome of the HTTP attempt number
  \<open>n\<close> of the run (counted from 0) with the given URL and query parameters: \<open>Failure\<close> when
  \<open>session.get\<close> or \<open>raise_for_status\<close> raises a \<open>RequestException\<close> (connection error,
  timeout, status outside 2xx), \<open>Success body\<close> when the response is 2xx and its body is the
  JSON value \<open>body\<close>. A 2xx response whose body is not JSON is not among the outcomes: the
  server is taken to answer in JSON. \<open>log_write n\<close> tells whether appending the metric line
  of attempt \<open>n\<close> to \<open>api_performance.log\<close> succeeds; when it does not, \<open>open\<close> or \<open>write\<close>
  raises \<open>OSError\<close>. The duration that the line holds is a wall-clock measurement and is left
  out; the line is recorded by its endpoint.
\<close>

datatype response = Failure | Success json

record env =
  http :: "nat \<Rightarrow> ustring \<Rightarrow> dict option \<Rightarrow> response"
  log_write :: "nat \<Rightarrow> bool"

text \<open>
  The state that the client changes: the dictionaries on the heap (addresses are numbers,
  \<open>next_addr\<close> is the first unused one), and what the run has done so far: the HTTP
  attempts with their URL and the query parameters as they were when sent, the seconds
  slept by \<open>time.sleep\<close>, and the endpoints of the metric lines written.
\<close>

record world =
  heap :: "nat \<Rightarrow> dict"
  next_addr :: nat
  requests :: "(ustring \<times> dict option) list"
  sleeps :: "nat list"
  metrics :: "ustring list"

text \<open>The URL of a request: \<open>f"{self.base_url}/{endpoint}"\<close>.\<close>

definition url_of :: "APIClient \<Rightarrow> ustring \<Rightarrow> ustring" where
  "url_of C endpoint = base_url C @ ustr ''/'' @ endpoint"

text \<open>
  \<open>APIClient.get\<close>: the loop \<open>for attempt in range(self.max_retries)\<close>, over the list of
  the attempt numbers still to run. \<open>params\<close> is a reference to a dictionary or \<open>None\<close>.
  A loop that runs out without returning (no attempt at all) returns \<open>None\<close>.
\<close>

fun get_attempts ::
  "env \<Rightarrow> APIClient \<Rightarrow> ustring \<Rightarrow> nat option \<Rightarrow> nat list \<Rightarrow> world \<Rightarrow> (error + json) \<times> world" where
  "get_attempts E C endpoint params [] w = (Inr JNull, w)"
| "get_attempts E C endpoint params (attempt # rest) w =
     (let url = url_of C endpoint;
          n = length (requests w);
          query = map_option (heap w) params;
          w1 = w\<lparr>requests := requests w @ [(url, query)]\<rparr>
      in case http E n url query of
           Success content \<Rightarrow>
             if log_write E n then (Inr content, w1\<lparr>metrics := metrics w1 @ [endpoint]\<rparr>)
             else (Inl OSError, w1)
         | Failure \<Rightarrow>
             if int attempt = max_retries C - 1 then (Inl APIError, w1)
             else get_attempts E C endpoint params rest
                    (w1\<lparr>sleeps := sleeps w1 @ [2 ^ attempt]\<rparr>))"

definition get ::
  "env \<Rightarrow> APIClient \<Rightarrow> ustring \<Rightarrow> nat option \<Rightarrow> world \<Rightarrow> (error + json) \<times> world" where
  "get E C endpoint params w =
     get_attempts E C endpoint params [0..<nat (max_retries C)] w"

text \<open>
  \<open>params = params or {}\<close>: the same dictionary when it is given and not empty, a new empty
  one otherwise.
\<close>

definition new_dict :: "world \<Rightarrow> nat \<times> world" where
  "new_dict w =
     (next_addr w, w\<lparr>heap := (heap w)(next_addr w := []), next_addr := Suc (next_addr w)\<rparr>)"

definition params_or_new :: "nat option \<Rightarrow> world \<Rightarrow> nat \<times> world" where
  "params_or_new params w =
     (case params of
        None \<Rightarrow> new_dict w
      | Some a \<Rightarrow> if heap w a \<noteq> [] then (a, w) else new_dict w)"

text \<open>\<open>params.update({'_page': page, '_limit': self.page_size})\<close>, on the contents.\<close>

definition update_page :: "APIClient \<Rightarrow> int \<Rightarrow> dict \<Rightarrow> dict" where
  "update_page C page d =
     dict_set (ustr ''_limit'') (JInt (page_size C)) (dict_set (ustr ''_page'') (JInt page) d)"

text \<open>
  \<open>APIClient.get_paginated\<close>: the \<open>while\<close> loop, with the variables \<open>params\<close>, \<open>results\<close>
  and \<open>page\<close> as arguments. Only \<open>APIError\<close> is caught; any other exception leaves the
  function.
\<close>

function get_paginated_loop ::
  "env \<Rightarrow> APIClient \<Rightarrow> ustring \<Rightarrow> nat option \<Rightarrow> json list \<Rightarrow> int \<Rightarrow> world
     \<Rightarrow> (error + json list) \<times> world" where
  "get_paginated_loop E C endpoint params results page w =
     (if page \<le> max_pages C then
        (case params_or_new params w of
           (a, w1) \<Rightarrow>
             (let w2 = w1\<lparr>heap := (heap w1)(a := update_page C page (heap w1 a))\<rparr>
              in case get E C endpoint (Some a) w2 of
                   (Inl e, w3) \<Rightarrow>
                     if e = APIError then (Inr results, w3) else (Inl e, w3)
                 | (Inr response, w3) \<Rightarrow>
                     if \<not> truthy response then (Inr results, w3)
                     else (case iter_json response of
                             Inl e \<Rightarrow> (Inl e, w3)
                           | Inr items \<Rightarrow>
                               if int (length items) < page_size C
                               then (Inr (results @ items), w3)
                               else get_paginated_loop E C endpoint (Some a)
                                      (results @ items) (page + 1) w3)))
      else (Inr results, w))"
  by pat_completeness auto
termination
  by (relation "measure (\<lambda>(E, C, endpoint, params, results, page, w). nat (max_pages C + 1 - page))")
     auto

definition get_paginated ::
  "env \<Rightarrow> APIClient \<Rightarrow> ustring \<Rightarrow> nat option \<Rightarrow> world \<Rightarrow> (error + json list) \<times> world" where
  "get_paginated E C endpoint params w = get_paginated_loop E C endpoint params [] 1 w"

declare get_paginated_loop.simps [simp del]

text \<open>
  Two notions for the theorems. \<open>base_params\<close> is the contents of the mapping that the
  caller supplies (nothing when there is none). \<open>page_request\<close> is the first half of one
  turn of the loop: \<open>params = params or {}\<close>, the update of \<open>_page\<close> and \<open>_limit\<close>, and the
  call of \<open>get\<close>; it gives the dictionary used, the outcome of \<open>get\<close> and the new state.
\<close>

definition base_params :: "nat option \<Rightarrow> world \<Rightarrow> dict" where
  "base_params params w = (case params of None \<Rightarrow> [] | Some a \<Rightarrow> heap w a)"

definition page_request ::
  "env \<Rightarrow> APIClient \<Rightarrow> ustring \<Rightarrow> nat option \<Rightarrow> int \<Rightarrow> world
     \<Rightarrow> nat \<times> (error + json) \<times> world" where
  "page_request E C endpoint params page w =
     (case params_or_new params w of
        (a, w1) \<Rightarrow>
          (a, get E C endpoint (Some a)
                (w1\<lparr>heap := (heap w1)(a := update_page C page (heap w1 a))\<rparr>)))"

section \<open>Normalisation: \<open>DataProcessor.process_users\<close>\<close>

text \<open>
  A raw record is a dictionary from field names to JSON values. \<open>User(**user)\<close> validates
  it against the model \<open>User\<close> of \<open>src/models/user.py\<close>: \<open>id\<close>, \<open>name\<close>, \<open>username\<close> and
  \<open>email\<close> have no default and are required, \<open>posts\<close>, \<open>post_count\<close> and \<open>avg_chars\<close> have
  defaults, other keys are ignored. How the validation library converts a value of each
  field type is a parameter of the model (\<open>None\<close>: the value is rejected); a missing
  required field or a rejected value raises \<open>ValidationError\<close>, modelled by \<open>None\<close>.
  The last parameter, \<open>v_error_json\<close>, tells whether \<open>e.json()\<close> returns for the
  \<open>ValidationError\<close> of a record: it serialises the error together with the offending
  input and raises a \<open>ValueError\<close> when it cannot (an input string with a lone surrogate).
\<close>

record validators =
  v_int :: "json \<Rightarrow> int option"
  v_str :: "json \<Rightarrow> ustring option"
  v_float :: "json \<Rightarrow> real option"
  v_posts :: "json \<Rightarrow> Post list option"
  v_error_json :: "dict \<Rightarrow> bool"

definition required :: "(json \<Rightarrow> 'a option) \<Rightarrow> dict \<Rightarrow> ustring \<Rightarrow> 'a option" where
  "required v d k = (case map_of d k of None \<Rightarrow> None | Some x \<Rightarrow> v x)"

definition with_default :: "(json \<Rightarrow> 'a option) \<Rightarrow> 'a \<Rightarrow> dict \<Rightarrow> ustring \<Rightarrow> 'a option" where
  "with_default v dflt d k = (case map_of d k of None \<Rightarrow> Some dflt | Some x \<Rightarrow> v x)"

definition UserModel :: "validators \<Rightarrow> dict \<Rightarrow> User option" where
  "UserModel V d =
     Option.bind (required (v_int V) d (ustr ''id'')) (\<lambda>i.
     Option.bind (required (v_str V) d (ustr ''name'')) (\<lambda>n.
     Option.bind (required (v_str V) d (ustr ''username'')) (\<lambda>u.
     Option.bind (required (v_str V) d (ustr ''email'')) (\<lambda>e.
     Option.bind (with_default (v_posts V) [] d (ustr ''posts'')) (\<lambda>ps.
     Option.bind (with_default (v_int V) 0 d (ustr ''post_count'')) (\<lambda>c.
     Option.bind (with_default (v_float V) 0 d (ustr ''avg_chars'')) (\<lambda>a.
       Some \<lparr>uid = i, name = n, username = u, email = e,
             posts = ps, post_count = c, avg_chars = a\<rparr>)))))))"

text \<open>
  The loop \<open>for user in users_data\<close>, with the list \<open>validated_users\<close> as accumulator. A
  record without \<open>id\<close> or \<open>name\<close> is skipped by \<open>continue\<close>. A \<open>ValidationError\<close> is caught;
  its handler evaluates \<open>e.json()\<close> as an argument of \<open>logger.error\<close>, outside any \<open>try\<close>, so
  a \<open>ValueError\<close> raised there leaves the function; otherwise the record is logged and
  the loop goes on.
\<close>

fun process_users_loop ::
  "validators \<Rightarrow> dict list \<Rightarrow> User list \<Rightarrow> error + User list" where
  "process_users_loop V [] validated_users = Inr validated_users"
| "process_users_loop V (user # rest) validated_users =
     (if \<not> list_all (\<lambda>key. map_of user key \<noteq> None) [ustr ''id'', ustr ''name'']
      then process_users_loop V rest validated_users
      else (case UserModel V user of
              Some validated_user \<Rightarrow>
                process_users_loop V rest (validated_users @ [validated_user])
            | None \<Rightarrow>
                if v_error_json V user then process_users_loop V rest validated_users
                else Inl ValueError))"

definition process_users :: "validators \<Rightarrow> dict list \<Rightarrow> error + User list" where
  "process_users V users_data = process_users_loop V users_data []"

text \<open>
  For the theorems: what the loop does with one record that it gets past. \<open>accepted\<close> is
  \<open>Some\<close> the user it appends, or \<open>None\<close> when the record is skipped; \<open>handler_raises\<close>
  holds when the record is rejected by the model and \<open>e.json()\<close> raises in the handler.
\<close>

definition accepted :: "validators \<Rightarrow> dict \<Rightarrow> User option" where
  "accepted V user =
     (if map_of user (ustr ''id'') \<noteq> None \<and> map_of user (ustr ''name'') \<noteq> None
      then UserModel V user else None)"

definition handler_raises :: "validators \<Rightarrow> dict \<Rightarrow> bool" where
  "handler_raises V user \<longleftrightarrow>
     map_of user (ustr ''id'') \<noteq> None \<and> map_of user (ustr ''name'') \<noteq> None
     \<and> UserModel V user = None \<and> \<not> v_error_json V user"

section \<open>Concrete clients, states and environments\<close>

text \<open>
  The client as \<open>__init__\<close> builds it with the default settings, a state with nothing on
  the heap and nothing done yet, and some environments: a server that is down, and one
  that answers at the third attempt.
\<close>

definition client0 :: APIClient where
  "client0 = \<lparr>base_url = ustr ''https://api.test.com'', page_size = 100, max_pages = 10,
     timeout = 30, max_retries = 3\<rparr>"

definition world0 :: world where
  "world0 = \<lparr>heap = (\<lambda>a. []), next_addr = 0, requests = [], sleeps = [], metrics = []\<rparr>"

definition env_down :: env where
  "env_down = \<lparr>http = (\<lambda>n url query. Failure), log_write = (\<lambda>n. True)\<rparr>"

definition env_third_try :: env where
  "env_third_try = \<lparr>http = (\<lambda>n url query. if n < 2 then Failure else Success (JList [JInt 7])),
     log_write = (\<lambda>n. True)\<rparr>"

text \<open>
  A page of two records and a full page of 100; a server that always answers with the two
  records, one whose first answer is a full page and that is down afterwards, one that
  answers while the metric file cannot be written; a state in which the caller holds the
  parameter dictionary \<open>{'userId': 1}\<close> at address 0.
\<close>

definition two_records :: json where
  "two_records = JList [JObj [(ustr ''id'', JInt 1)], JObj [(ustr ''id'', JInt 2)]]"


definition env_short_page :: env where
  "env_short_page = \<lparr>http = (\<lambda>n url query. Success two_records), log_write = (\<lambda>n. True)\<rparr>"


definition env_log_unwritable :: env where
  "env_log_unwritable = \<lparr>http = (\<lambda>n url query. Success two_records), log_write = (\<lambda>n. False)\<rparr>"

definition world_with_params :: world where
  "world_with_params = \<lparr>heap = (\<lambda>a. [])(0 := [(ustr ''userId'', JInt 1)]), next_addr = 1,
     requests = [], sleeps = [], metrics = []\<rparr>"

text \<open>
  An instance of the validation parameter: it accepts a JSON integer for \<open>int\<close>, a JSON
  string for \<open>str\<close>, a JSON number for \<open>float\<close> and the empty list for \<open>posts\<close>, and
  serialises the error of a record unless one of its keys or string values holds a
  surrogate code point. Then three inputs: the three records of the specification's
  example; the same with \<open>username\<close> and \<open>email\<close> in the first and the third; and a record
  whose name is a lone surrogate, followed by a valid one.
\<close>

definition no_surrogate :: "ustring \<Rightarrow> bool" where
  "no_surrogate s = list_all (\<lambda>c. \<not> (55296 \<le> c \<and> c \<le> 57343)) s"

definition plain_validators :: validators where
  "plain_validators =
     \<lparr>v_int = (\<lambda>j. case j of JInt i \<Rightarrow> Some i | _ \<Rightarrow> None),
      v_str = (\<lambda>j. case j of JStr s \<Rightarrow> Some s | _ \<Rightarrow> None),
      v_float = (\<lambda>j. case j of JFloat r \<Rightarrow> Some r | JInt i \<Rightarrow> Some (real_of_int i) | _ \<Rightarrow> None),
      v_posts = (\<lambda>j. case j of JList [] \<Rightarrow> Some [] | _ \<Rightarrow> None),
      v_error_json = (\<lambda>user. list_all (\<lambda>kv. no_surrogate (fst kv)
         \<and> (case snd kv of JStr s \<Rightarrow> no_surrogate s | _ \<Rightarrow> True)) user)\<rparr>"

definition surrogate_example :: "dict list" where
  "surrogate_example =
     [[(ustr ''id'', JInt 1), (ustr ''name'', JStr [55296])],
      [(ustr ''id'', JInt 2), (ustr ''name'', JStr (ustr ''B'')),
       (ustr ''username'', JStr (ustr ''b'')), (ustr ''email'', JStr (ustr ''b@x.org''))]]"

definition spec_example :: "dict list" where
  "spec_example =
     [[(ustr ''id'', JInt 1), (ustr ''name'', JStr (ustr ''A''))],
      [(ustr ''name'', JStr (ustr ''B''))],
      [(ustr ''id'', JInt 3), (ustr ''name'', JStr (ustr ''C''))]]"

definition full_example :: "dict list" where
  "full_example =
     [[(ustr ''id'', JInt 1), (ustr ''name'', JStr (ustr ''A'')),
       (ustr ''username'', JStr (ustr ''a'')), (ustr ''email'', JStr (ustr ''a@x.org''))],
      [(ustr ''name'', JStr (ustr ''B''))],
      [(ustr ''id'', JInt 3), (ustr ''name'', JStr (ustr ''C'')),
       (ustr ''username'', JStr (ustr ''c'')), (ustr ''email'', JStr (ustr ''c@x.org''))]]"

section \<open>Aggregation: theorems\<close>






text \<open>
  C8. Aggregation is idempotent: a second run on the same inputs gives the result of the
  first, and the result does not depend on what the three derived fields held before, since
  all three are overwritten.
\<close>

theorem C8_calculate_metrics_idempotent:
  "calculate_metrics (calculate_metrics e items) items = calculate_metrics e items
   \<and> post_count (calculate_metrics (calculate_metrics e items) items)
       = post_count (calculate_metrics e items)
   \<and> avg_chars (calculate_metrics (calculate_metrics e items) items)
       = avg_chars (calculate_metrics e items)
   \<and> calculate_metrics (e\<lparr>posts := p, post_count := c, avg_chars := a\<rparr>) items
       = calculate_metrics e items"
  by (simp add: calculate_metrics_def Let_def)

section \<open>Ordering: theorems\<close>

lemma post_count_or_0_eq: "post_count_or_0 x = post_count x"
  by (simp add: post_count_or_0_def)

lemma sorted_py_reverse_mset: "mset (sorted_py key True xs) = mset xs"
  by (simp add: sorted_py_def)

lemma sorted_py_reverse_sorted:
  "sorted_wrt (\<lambda>a b. key a \<ge> key b) (sorted_py key True xs)"
proof -
  have "sorted (map key (sort_key key (rev xs)))"
    by (rule sorted_sort_key)
  then have "sorted_wrt (\<lambda>a b. key a \<le> key b) (sort_key key (rev xs))"
    by (simp add: sorted_map)
  then have "sorted_wrt (\<lambda>b a. key a \<le> key b) (rev (sort_key key (rev xs)))"
    by (simp add: sorted_wrt_rev)
  then show ?thesis
    by (simp add: sorted_py_def)
qed

lemma sorted_py_reverse_stable:
  "filter (\<lambda>y. key y = k) (sorted_py key True xs) = filter (\<lambda>y. key y = k) xs"
proof -
  have "filter (\<lambda>y. key y = k) (rev (sort_key key (rev xs)))
          = rev (filter (\<lambda>y. key y = k) (sort_key key (rev xs)))"
    by (simp add: rev_filter)
  also have "\<dots> = rev (filter (\<lambda>y. key y = k) (rev xs))"
    by (simp only: sort_key_stable)
  also have "\<dots> = filter (\<lambda>y. key y = k) xs"
    by (simp add: rev_filter)
  finally show ?thesis
    by (simp add: sorted_py_def)
qed

text \<open>
  C6. Sorting by item count is a stable descending sort: the output is a permutation of the
  input, its counts never increase, the entities of each count keep their input order, and
  counts \<open>[3, 7, 3]\<close> sort to \<open>[7, 3, 3]\<close> with the first count-3 entity before the second.
\<close>

theorem C6_sort_users_stable_descending:
  "mset (sort_users_by_post_count users) = mset users
   \<and> sorted_wrt (\<lambda>a b. post_count a \<ge> post_count b) (sort_users_by_post_count users)
   \<and> (\<forall>k. filter (\<lambda>u. post_count u = k) (sort_users_by_post_count users)
            = filter (\<lambda>u. post_count u = k) users)
   \<and> sort_users_by_post_count [x\<lparr>post_count := 3\<rparr>, y\<lparr>post_count := 7\<rparr>, z\<lparr>post_count := 3\<rparr>]
       = [y\<lparr>post_count := 7\<rparr>, x\<lparr>post_count := 3\<rparr>, z\<lparr>post_count := 3\<rparr>]"
proof -
  have key: "post_count_or_0 = post_count"
    by (rule ext) (rule post_count_or_0_eq)
  have "sort_users_by_post_count [x\<lparr>post_count := 3\<rparr>, y\<lparr>post_count := 7\<rparr>, z\<lparr>post_count := 3\<rparr>]
       = [y\<lparr>post_count := 7\<rparr>, x\<lparr>post_count := 3\<rparr>, z\<lparr>post_count := 3\<rparr>]"
    by (simp add: sort_users_by_post_count_def sorted_py_def key)
  then show ?thesis
    using sorted_py_reverse_sorted [of post_count users]
      sorted_py_reverse_stable [of post_count _ users]
    by (simp add: sort_users_by_post_count_def key sorted_py_reverse_mset)
qed

section \<open>Validation gate: theorems\<close>

text \<open>
  C7. The gate raises if and only if the entity sequence is empty; a non-empty sequence
  passes, and when all its counts are zero a warning is logged and nothing is raised.
\<close>

theorem C7_validate_users_gate:
  "((\<exists>e. snd (validate_users users) = Inl e) \<longleftrightarrow> users = [])
   \<and> (snd (validate_users users) = Inl ValueError \<longleftrightarrow> users = [])
   \<and> (snd (validate_users users) = Inr () \<longleftrightarrow> users \<noteq> [])
   \<and> (users \<noteq> [] \<and> (\<forall>u \<in> set users. post_count u = 0)
        \<longrightarrow> validate_users users = ([WARNING], Inr ()))"
  by (cases users) (auto simp add: validate_users_def list_ex_iff)

theorem C7_validate_users_gate_witness:
  "validate_users [\<lparr>uid = 1, name = ustr ''A'', username = ustr ''a'', email = ustr ''a@b'',
      posts = [], post_count = 0, avg_chars = 0\<rparr>] = ([WARNING], Inr ())
   \<and> snd (validate_users []) = Inl ValueError"
  using C7_validate_users_gate [of "[\<lparr>uid = 1, name = ustr ''A'', username = ustr ''a'',
      email = ustr ''a@b'', posts = [], post_count = 0, avg_chars = 0\<rparr>]"]
    C7_validate_users_gate [of "[]"]
  by simp

section \<open>The single request: theorems\<close>

lemma get_attempts_frame:
  "heap (snd (get_attempts E C ep p as w)) = heap w \<and>
   next_addr (snd (get_attempts E C ep p as w)) = next_addr w"
  by (induction as arbitrary: w) (auto simp add: Let_def split: response.splits)

lemma get_attempts_all_fail:
  assumes "\<forall>k<length as. http E (length (requests w) + k) (url_of C ep) (map_option (heap w) p) = Failure"
    and "as \<noteq> []" and "int (last as) = max_retries C - 1"
    and "\<forall>a\<in>set (butlast as). int a \<noteq> max_retries C - 1"
  shows "fst (get_attempts E C ep p as w) = Inl APIError \<and>
     requests (snd (get_attempts E C ep p as w))
       = requests w @ replicate (length as) (url_of C ep, map_option (heap w) p) \<and>
     sleeps (snd (get_attempts E C ep p as w)) = sleeps w @ map (\<lambda>a. 2 ^ a) (butlast as) \<and>
     metrics (snd (get_attempts E C ep p as w)) = metrics w"
  using assms
proof (induction as arbitrary: w)
  case Nil
  then show ?case by simp
next
  case (Cons a as)
  have h0: "http E (length (requests w)) (url_of C ep) (map_option (heap w) p) = Failure"
    using Cons.prems(1) by force
  show ?case
  proof (cases "as = []")
    case True
    with Cons.prems h0 show ?thesis
      by (simp add: Let_def)
  next
    case False
    let ?w = "w\<lparr>requests := requests w @ [(url_of C ep, map_option (heap w) p)],
                sleeps := sleeps w @ [2 ^ a]\<rparr>"
    have ne: "int a \<noteq> max_retries C - 1"
      using Cons.prems(4) False by simp
    have step: "get_attempts E C ep p (a # as) w = get_attempts E C ep p as ?w"
      using h0 ne by (simp add: Let_def)
    have "\<forall>k<length as. http E (length (requests ?w) + k) (url_of C ep) (map_option (heap ?w) p) = Failure"
    proof (intro allI impI)
      fix k assume "k < length as"
      then have "Suc k < length (a # as)" by simp
      from Cons.prems(1)[rule_format, OF this] show "http E (length (requests ?w) + k) (url_of C ep) (map_option (heap ?w) p) = Failure"
        by simp
    qed
    moreover have "int (last as) = max_retries C - 1"
      using Cons.prems(3) False by simp
    moreover have "\<forall>a\<in>set (butlast as). int a \<noteq> max_retries C - 1"
      using Cons.prems(4) False by simp
    ultimately have IH: "fst (get_attempts E C ep p as ?w) = Inl APIError \<and>
     requests (snd (get_attempts E C ep p as ?w))
       = requests ?w @ replicate (length as) (url_of C ep, map_option (heap ?w) p) \<and>
     sleeps (snd (get_attempts E C ep p as ?w)) = sleeps ?w @ map (\<lambda>a. 2 ^ a) (butlast as) \<and>
     metrics (snd (get_attempts E C ep p as ?w)) = metrics ?w"
      using Cons.IH [of ?w] False by blast
    show ?thesis
      unfolding step using IH False by (simp add: replicate_app_Cons_same)
  qed
qed

lemma get_attempts_first_success:
  assumes "\<forall>k<length pre. http E (length (requests w) + k) (url_of C ep) (map_option (heap w) p) = Failure"
    and "http E (length (requests w) + length pre) (url_of C ep) (map_option (heap w) p) = Success content"
    and "\<forall>a\<in>set pre. int a \<noteq> max_retries C - 1"
  shows "fst (get_attempts E C ep p (pre @ a # rest) w)
       = (if log_write E (length (requests w) + length pre) then Inr content else Inl OSError) \<and>
     requests (snd (get_attempts E C ep p (pre @ a # rest) w))
       = requests w @ replicate (Suc (length pre)) (url_of C ep, map_option (heap w) p) \<and>
     sleeps (snd (get_attempts E C ep p (pre @ a # rest) w)) = sleeps w @ map (\<lambda>a. 2 ^ a) pre \<and>
     metrics (snd (get_attempts E C ep p (pre @ a # rest) w))
       = (if log_write E (length (requests w) + length pre) then metrics w @ [ep] else metrics w)"
  using assms
proof (induction pre arbitrary: w)
  case Nil
  then show ?case by (simp add: Let_def)
next
  case (Cons b pre)
  let ?w = "w\<lparr>requests := requests w @ [(url_of C ep, map_option (heap w) p)],
                sleeps := sleeps w @ [2 ^ b]\<rparr>"
  have h0: "http E (length (requests w)) (url_of C ep) (map_option (heap w) p) = Failure"
    using Cons.prems(1) by force
  have ne: "int b \<noteq> max_retries C - 1"
    using Cons.prems(3) by simp
  have step: "get_attempts E C ep p ((b # pre) @ a # rest) w = get_attempts E C ep p (pre @ a # rest) ?w"
    using h0 ne by (simp add: Let_def)
  have "\<forall>k<length pre. http E (length (requests ?w) + k) (url_of C ep) (map_option (heap ?w) p) = Failure"
  proof (intro allI impI)
    fix k assume "k < length pre"
    then have "Suc k < length (b # pre)" by simp
    from Cons.prems(1)[rule_format, OF this]
    show "http E (length (requests ?w) + k) (url_of C ep) (map_option (heap ?w) p) = Failure"
      by simp
  qed
  moreover have "http E (length (requests ?w) + length pre) (url_of C ep) (map_option (heap ?w) p) = Success content"
    using Cons.prems(2) by simp
  moreover have "\<forall>a\<in>set pre. int a \<noteq> max_retries C - 1"
    using Cons.prems(3) by simp
  ultimately show ?case
    unfolding step using Cons.IH [of ?w] by (simp add: replicate_app_Cons_same)
qed

lemma upt_attempts_last:
  assumes "0 < r"
  shows "[0..<nat r] \<noteq> [] \<and> int (last [0..<nat r]) = r - 1 \<and>
     (\<forall>a\<in>set (butlast [0..<nat r]). int a \<noteq> r - 1) \<and> butlast [0..<nat r] = [0..<nat r - 1]"
proof -
  obtain m where m: "nat r = Suc m"
    using assms by (cases "nat r") auto
  have r: "r - 1 = int m" using m assms by linarith
  have l: "[0..<nat r] = [0..<m] @ [m]"
    by (simp add: m)
  show ?thesis
    unfolding l r by (simp add: m)
qed

lemma upt_attempts_split:
  assumes "k < nat r"
  shows "[0..<nat r] = [0..<k] @ k # [Suc k..<nat r] \<and> (\<forall>a\<in>set [0..<k]. int a \<noteq> r - 1)"
proof -
  have "[0..<nat r] = [0..<k] @ [k..<nat r]"
    using assms by (metis less_imp_le_nat upt_add_eq_append zero_le le_add_diff_inverse)
  moreover have "[k..<nat r] = k # [Suc k..<nat r]"
    using assms by (simp add: upt_conv_Cons)
  moreover have "\<forall>a\<in>set [0..<k]. int a \<noteq> r - 1"
    using assms by auto
  ultimately show ?thesis by simp
qed

lemma get_all_fail:
  assumes "0 < max_retries C"
    and "\<forall>k < nat (max_retries C).
            http E (length (requests w) + k) (url_of C ep) (map_option (heap w) p) = Failure"
  shows "fst (get E C ep p w) = Inl APIError
       \<and> requests (snd (get E C ep p w))
           = requests w @ replicate (nat (max_retries C)) (url_of C ep, map_option (heap w) p)
       \<and> sleeps (snd (get E C ep p w))
           = sleeps w @ map (\<lambda>attempt. 2 ^ attempt) [0..<nat (max_retries C) - 1]
       \<and> metrics (snd (get E C ep p w)) = metrics w"
proof -
  note u = upt_attempts_last [OF assms(1)]
  have "\<forall>k<length [0..<nat (max_retries C)].
          http E (length (requests w) + k) (url_of C ep) (map_option (heap w) p) = Failure"
    using assms(2) by simp
  from get_attempts_all_fail [OF this] u
  have "fst (get_attempts E C ep p [0..<nat (max_retries C)] w) = Inl APIError \<and>
     requests (snd (get_attempts E C ep p [0..<nat (max_retries C)] w))
       = requests w @ replicate (length [0..<nat (max_retries C)]) (url_of C ep, map_option (heap w) p) \<and>
     sleeps (snd (get_attempts E C ep p [0..<nat (max_retries C)] w))
       = sleeps w @ map (\<lambda>a. 2 ^ a) (butlast [0..<nat (max_retries C)]) \<and>
     metrics (snd (get_attempts E C ep p [0..<nat (max_retries C)] w)) = metrics w"
    by blast
  then show ?thesis
    using u by (simp add: get_def)
qed

lemma get_first_success:
  assumes "k < nat (max_retries C)"
    and "\<forall>j < k. http E (length (requests w) + j) (url_of C ep) (map_option (heap w) p) = Failure"
    and "http E (length (requests w) + k) (url_of C ep) (map_option (heap w) p) = Success content"
  shows "fst (get E C ep p w)
           = (if log_write E (length (requests w) + k) then Inr content else Inl OSError)
       \<and> requests (snd (get E C ep p w))
           = requests w @ replicate (Suc k) (url_of C ep, map_option (heap w) p)
       \<and> sleeps (snd (get E C ep p w)) = sleeps w @ map (\<lambda>attempt. 2 ^ attempt) [0..<k]
       \<and> metrics (snd (get E C ep p w))
           = (if log_write E (length (requests w) + k) then metrics w @ [ep] else metrics w)"
proof -
  note s = upt_attempts_split [OF assms(1)]
  have a1: "\<forall>j<length [0..<k]. http E (length (requests w) + j) (url_of C ep) (map_option (heap w) p) = Failure"
    using assms(2) by simp
  have a2: "http E (length (requests w) + length [0..<k]) (url_of C ep) (map_option (heap w) p) = Success content"
    using assms(3) by simp
  have a3: "\<forall>a\<in>set [0..<k]. int a \<noteq> max_retries C - 1"
    using s by blast
  note r = get_attempts_first_success [OF a1 a2 a3, of k "[Suc k..<nat (max_retries C)]"]
  have e: "get E C ep p w = get_attempts E C ep p ([0..<k] @ k # [Suc k..<nat (max_retries C)]) w"
    using s by (simp add: get_def)
  show ?thesis
    unfolding e using r by simp
qed

text \<open>
  C5. When every attempt of a request fails at transport level, \<open>get\<close> makes exactly
  \<open>max_retries\<close> attempts, sleeps \<open>2 ^ attempt\<close> seconds after each attempt but the last,
  and raises \<open>APIError\<close>. When attempt \<open>k\<close> is the first that succeeds (a 2xx response
  with a JSON body, its metric line written), \<open>get\<close> returns that body after exactly
  \<open>k + 1\<close> attempts and \<open>k\<close> sleeps. \<open>max_retries\<close> is at least 1, as the configuration
  surface of the specification requires.
\<close>

theorem C5_get_retries:
  assumes "0 < max_retries C"
  shows "((\<forall>k < nat (max_retries C).
            http E (length (requests w) + k) (url_of C ep) (map_option (heap w) p) = Failure)
          \<longrightarrow> fst (get E C ep p w) = Inl APIError
              \<and> requests (snd (get E C ep p w))
                  = requests w @ replicate (nat (max_retries C)) (url_of C ep, map_option (heap w) p)
              \<and> sleeps (snd (get E C ep p w))
                  = sleeps w @ map (\<lambda>attempt. 2 ^ attempt) [0..<nat (max_retries C) - 1])
       \<and> (k < nat (max_retries C)
          \<and> (\<forall>j < k. http E (length (requests w) + j) (url_of C ep) (map_option (heap w) p) = Failure)
          \<and> http E (length (requests w) + k) (url_of C ep) (map_option (heap w) p) = Success content
          \<and> log_write E (length (requests w) + k)
          \<longrightarrow> fst (get E C ep p w) = Inr content
              \<and> requests (snd (get E C ep p w))
                  = requests w @ replicate (Suc k) (url_of C ep, map_option (heap w) p)
              \<and> sleeps (snd (get E C ep p w)) = sleeps w @ map (\<lambda>attempt. 2 ^ attempt) [0..<k])"
proof (intro conjI impI)
  assume "\<forall>k < nat (max_retries C).
            http E (length (requests w) + k) (url_of C ep) (map_option (heap w) p) = Failure"
  from get_all_fail [OF assms this]
  show "fst (get E C ep p w) = Inl APIError"
    and "requests (snd (get E C ep p w))
      = requests w @ replicate (nat (max_retries C)) (url_of C ep, map_option (heap w) p)"
    and "sleeps (snd (get E C ep p w))
      = sleeps w @ map (\<lambda>attempt. 2 ^ attempt) [0..<nat (max_retries C) - 1]"
    by simp_all
next
  assume h: "k < nat (max_retries C)
          \<and> (\<forall>j < k. http E (length (requests w) + j) (url_of C ep) (map_option (heap w) p) = Failure)
          \<and> http E (length (requests w) + k) (url_of C ep) (map_option (heap w) p) = Success content
          \<and> log_write E (length (requests w) + k)"
  then have "fst (get E C ep p w)
           = (if log_write E (length (requests w) + k) then Inr content else Inl OSError)
       \<and> requests (snd (get E C ep p w))
           = requests w @ replicate (Suc k) (url_of C ep, map_option (heap w) p)
       \<and> sleeps (snd (get E C ep p w)) = sleeps w @ map (\<lambda>attempt. 2 ^ attempt) [0..<k]"
    using get_first_success [of k C E w ep p content] by blast
  with h show "fst (get E C ep p w) = Inr content"
    and "requests (snd (get E C ep p w))
      = requests w @ replicate (Suc k) (url_of C ep, map_option (heap w) p)"
    and "sleeps (snd (get E C ep p w)) = sleeps w @ map (\<lambda>attempt. 2 ^ attempt) [0..<k]"
    by simp_all
qed

theorem C5_get_retries_witness:
  "fst (get env_down client0 (ustr ''users'') None world0) = Inl APIError
   \<and> length (requests (snd (get env_down client0 (ustr ''users'') None world0))) = 3
   \<and> sleeps (snd (get env_down client0 (ustr ''users'') None world0)) = [1, 2]
   \<and> fst (get env_third_try client0 (ustr ''users'') None world0) = Inr (JList [JInt 7])
   \<and> length (requests (snd (get env_third_try client0 (ustr ''users'') None world0))) = 3"
proof -
  have m: "0 < max_retries client0"
    by (simp add: client0_def)
  have n: "nat (max_retries client0) = 3"
    by (simp add: client0_def)
  have d: "\<forall>k < nat (max_retries client0).
            http env_down (length (requests world0) + k) (url_of client0 (ustr ''users''))
              (map_option (heap world0) None) = Failure"
    by (simp add: env_down_def)
  have t: "(2::nat) < nat (max_retries client0)
     \<and> (\<forall>j < 2. http env_third_try (length (requests world0) + j) (url_of client0 (ustr ''users''))
              (map_option (heap world0) None) = Failure)
     \<and> http env_third_try (length (requests world0) + 2) (url_of client0 (ustr ''users''))
              (map_option (heap world0) None) = Success (JList [JInt 7])
     \<and> log_write env_third_try (length (requests world0) + 2)"
    by (simp add: env_third_try_def n world0_def)
  have u: "map (\<lambda>attempt. 2 ^ attempt) [0..<2] = [1, 2::nat]"
    by (simp add: upt_rec)
  show ?thesis
    using C5_get_retries [OF m, of env_down world0 "ustr ''users''" None 2 "JList [JInt 7]"] d
      C5_get_retries [OF m, of env_third_try world0 "ustr ''users''" None 2 "JList [JInt 7]"] t
    by (simp add: n u world0_def)
qed

text \<open>
  C9, at a concrete run: the server answers the first attempt with two records, the metric
  file cannot be written, and \<open>get\<close> raises \<open>OSError\<close> instead of returning the body.
\<close>

theorem C9_get_metric_failure_counterexample:
  "http env_log_unwritable 0 (url_of client0 (ustr ''users'')) None = Success two_records
   \<and> fst (get env_log_unwritable client0 (ustr ''users'') None world0) = Inl OSError"
  by (simp add: env_log_unwritable_def client0_def world0_def get_def upt_rec Let_def)

text \<open>
  C9, as the code has it. When attempt \<open>k\<close> is the first with a successful response, \<open>get\<close>
  makes no further attempt; it returns the body when the metric line is written, and when
  writing it fails the \<open>OSError\<close> leaves \<open>get\<close>: it is not caught (only \<open>RequestException\<close>
  is), not retried and not turned into \<open>APIError\<close>, and no body is returned.
\<close>

theorem C9_get_metric_failure:
  "k < nat (max_retries C)
   \<and> (\<forall>j < k. http E (length (requests w) + j) (url_of C ep) (map_option (heap w) p) = Failure)
   \<and> http E (length (requests w) + k) (url_of C ep) (map_option (heap w) p) = Success content
   \<longrightarrow> fst (get E C ep p w)
         = (if log_write E (length (requests w) + k) then Inr content else Inl OSError)
       \<and> requests (snd (get E C ep p w))
           = requests w @ replicate (Suc k) (url_of C ep, map_option (heap w) p)
       \<and> metrics (snd (get E C ep p w))
           = (if log_write E (length (requests w) + k) then metrics w @ [ep] else metrics w)"
  using get_first_success [of k C E w ep p content] by blast

theorem C9_get_metric_failure_witness:
  "fst (get env_log_unwritable client0 (ustr ''posts'') None world0) = Inl OSError
   \<and> length (requests (snd (get env_log_unwritable client0 (ustr ''posts'') None world0))) = 1
   \<and> fst (get env_short_page client0 (ustr ''posts'') None world0) = Inr two_records"
proof -
  have a: "(0::nat) < nat (max_retries client0)
   \<and> (\<forall>j < 0. http env_log_unwritable (length (requests world0) + j) (url_of client0 (ustr ''posts''))
          (map_option (heap world0) None) = Failure)
   \<and> http env_log_unwritable (length (requests world0) + 0) (url_of client0 (ustr ''posts''))
          (map_option (heap world0) None) = Success two_records"
    by (simp add: client0_def env_log_unwritable_def)
  have b: "(0::nat) < nat (max_retries client0)
   \<and> (\<forall>j < 0. http env_short_page (length (requests world0) + j) (url_of client0 (ustr ''posts''))
          (map_option (heap world0) None) = Failure)
   \<and> http env_short_page (length (requests world0) + 0) (url_of client0 (ustr ''posts''))
          (map_option (heap world0) None) = Success two_records"
    by (simp add: client0_def env_short_page_def)
  have l: "\<not> log_write env_log_unwritable (length (requests world0) + 0)"
     "log_write env_short_page (length (requests world0) + 0)"
    by (simp_all add: env_log_unwritable_def env_short_page_def)
  show ?thesis
    using C9_get_metric_failure [of 0 client0 env_log_unwritable world0 "ustr ''posts''" None two_records] a
      C9_get_metric_failure [of 0 client0 env_short_page world0 "ustr ''posts''" None two_records] b l
    by (simp add: world0_def)
qed

section \<open>Pagination: theorems\<close>

lemma dict_set_nonempty: "dict_set k v d \<noteq> []"
  by (cases d) (auto split: if_splits)

lemma dict_set_twice: "dict_set k v (dict_set k v' d) = dict_set k v d"
  by (induction d) auto

lemma dict_set_page_limit:
  assumes "L \<noteq> P"
  shows "dict_set L l (dict_set P p2 (dict_set L l (dict_set P p1 d)))
       = dict_set L l (dict_set P p2 d)"
  using assms by (induction d) (auto simp add: dict_set_twice)

lemma page_limit_keys: "ustr ''_limit'' \<noteq> ustr ''_page''"
  by (simp add: ustr_def)

lemma update_page_nonempty: "update_page C page d \<noteq> []"
  by (simp add: update_page_def dict_set_nonempty)

lemma update_page_twice: "update_page C page' (update_page C page d) = update_page C page' d"
  by (simp add: update_page_def dict_set_page_limit [OF page_limit_keys])

lemma get_attempts_requests:
  "\<exists>j. j \<le> length as \<and> requests (snd (get_attempts E C ep p as w))
          = requests w @ replicate j (url_of C ep, map_option (heap w) p)"
proof (induction as arbitrary: w)
  case Nil
  show ?case by simp
next
  case (Cons a as)
  let ?r = "(url_of C ep, map_option (heap w) p)"
  let ?w = "w\<lparr>requests := requests w @ [?r], sleeps := sleeps w @ [2 ^ a]\<rparr>"
  from Cons.IH [of ?w] obtain j where j: "j \<le> length as"
      "requests (snd (get_attempts E C ep p as ?w)) = requests ?w @ replicate j ?r"
    by auto
  have one: "requests w @ [?r] = requests w @ replicate 1 ?r"
    by simp
  show ?case
  proof (cases "http E (length (requests w)) (url_of C ep) (map_option (heap w) p)")
    case Failure
    show ?thesis
    proof (cases "int a = max_retries C - 1")
      case True
      with Failure one show ?thesis
        by (intro exI [of _ 1]) (simp add: Let_def)
    next
      case False
      with Failure j show ?thesis
        by (intro exI [of _ "Suc j"]) (simp add: Let_def replicate_app_Cons_same)
    qed
  next
    case (Success content)
    then show ?thesis
      by (intro exI [of _ 1]) (simp add: Let_def)
  qed
qed

lemma get_frame:
  "heap (snd (get E C ep p w)) = heap w \<and> next_addr (snd (get E C ep p w)) = next_addr w"
  by (simp add: get_def get_attempts_frame)

lemma get_requests:
  "\<exists>j. j \<le> nat (max_retries C) \<and> requests (snd (get E C ep p w))
          = requests w @ replicate j (url_of C ep, map_option (heap w) p)"
  using get_attempts_requests [of "[0..<nat (max_retries C)]" E C ep p w]
  by (simp add: get_def)

text \<open>One turn of the loop: which dictionary is used, what it holds, what is sent.\<close>

lemma page_request_addr:
  "fst (page_request E C ep params page w)
     = (case params of None \<Rightarrow> next_addr w
        | Some a \<Rightarrow> if heap w a \<noteq> [] then a else next_addr w)"
  by (simp add: page_request_def params_or_new_def new_dict_def split: option.splits)

lemma page_request_heap:
  "heap (snd (snd (page_request E C ep params page w)))
     = (heap w)(fst (page_request E C ep params page w)
          := update_page C page (base_params params w))"
  by (auto simp add: page_request_def params_or_new_def new_dict_def base_params_def get_frame
      split: option.splits)

lemma page_request_requests:
  "\<exists>j. j \<le> nat (max_retries C) \<and> requests (snd (snd (page_request E C ep params page w)))
     = requests w @ replicate j (url_of C ep, Some (update_page C page (base_params params w)))"
proof -
  obtain a w1 where p: "params_or_new params w = (a, w1)"
    by (cases "params_or_new params w")
  then have r: "requests w1 = requests w" and h: "heap w1 a = base_params params w"
    by (auto simp add: params_or_new_def new_dict_def base_params_def split: option.splits if_splits)
  let ?w2 = "w1\<lparr>heap := (heap w1)(a := update_page C page (heap w1 a))\<rparr>"
  from get_requests [of C E ep "Some a" ?w2] r h show ?thesis
    by (simp add: page_request_def p)
qed

lemma loop_unfold:
  "get_paginated_loop E C ep params results page w =
     (if page \<le> max_pages C then
        (case page_request E C ep params page w of
           (a, r, w3) \<Rightarrow>
             (case r of
                Inl e \<Rightarrow> if e = APIError then (Inr results, w3) else (Inl e, w3)
              | Inr response \<Rightarrow>
                  if \<not> truthy response then (Inr results, w3)
                  else (case iter_json response of
                          Inl e \<Rightarrow> (Inl e, w3)
                        | Inr items \<Rightarrow>
                            if int (length items) < page_size C
                            then (Inr (results @ items), w3)
                            else get_paginated_loop E C ep (Some a)
                                   (results @ items) (page + 1) w3)))
      else (Inr results, w))"
proof -
  have eq: "get_paginated_loop E C ep params results page w =
     (if page \<le> max_pages C then
        (case params_or_new params w of
           (a, w1) \<Rightarrow>
             (let w2 = w1\<lparr>heap := (heap w1)(a := update_page C page (heap w1 a))\<rparr>
              in case get E C ep (Some a) w2 of
                   (Inl e, w3) \<Rightarrow>
                     if e = APIError then (Inr results, w3) else (Inl e, w3)
                 | (Inr response, w3) \<Rightarrow>
                     if \<not> truthy response then (Inr results, w3)
                     else (case iter_json response of
                             Inl e \<Rightarrow> (Inl e, w3)
                           | Inr items \<Rightarrow>
                               if int (length items) < page_size C
                               then (Inr (results @ items), w3)
                               else get_paginated_loop E C ep (Some a)
                                      (results @ items) (page + 1) w3)))
      else (Inr results, w))"
    by (rule get_paginated_loop.simps)
  show ?thesis
    unfolding eq page_request_def
    by (simp add: Let_def split: prod.splits sum.splits)
qed

lemma loop_exit: "\<not> page \<le> max_pages C \<Longrightarrow>
    get_paginated_loop E C ep params results page w = (Inr results, w)"
  by (simp add: loop_unfold [of E C ep params results page w])

lemma loop_step:
  assumes "page \<le> max_pages C"
  shows "(\<exists>r. get_paginated_loop E C ep params results page w
             = (r, snd (snd (page_request E C ep params page w))))
       \<or> (\<exists>items. get_paginated_loop E C ep params results page w
             = get_paginated_loop E C ep (Some (fst (page_request E C ep params page w)))
                 (results @ items) (page + 1) (snd (snd (page_request E C ep params page w))))"
  unfolding loop_unfold [of E C ep params results page w]
  using assms by (auto split: prod.splits sum.splits)

lemma loop_requests:
  assumes "\<forall>pg. update_page C pg (base_params params w) = update_page C pg base"
  shows "\<exists>rs. requests (snd (get_paginated_loop E C ep params results page w)) = requests w @ rs
          \<and> (\<forall>r\<in>set rs. \<exists>pg. page \<le> pg \<and> pg \<le> max_pages C
                 \<and> r = (url_of C ep, Some (update_page C pg base)))"
  using assms
proof (induction "nat (max_pages C + 1 - page)" arbitrary: params results page w rule: less_induct)
  case less
  show ?case
  proof (cases "page \<le> max_pages C")
    case False
    then show ?thesis by (simp add: loop_exit)
  next
    case True
    let ?a = "fst (page_request E C ep params page w)"
    let ?w3 = "snd (snd (page_request E C ep params page w))"
    obtain j where j: "requests ?w3
        = requests w @ replicate j (url_of C ep, Some (update_page C page base))"
      using page_request_requests [of C E ep params page w] less.prems by auto
    from loop_step [OF True, of E ep params results w] show ?thesis
    proof (elim disjE exE)
      fix r assume "get_paginated_loop E C ep params results page w = (r, ?w3)"
      with j True show ?thesis
        by (intro exI [of _ "replicate j (url_of C ep, Some (update_page C page base))"]) auto
    next
      fix items
      assume e: "get_paginated_loop E C ep params results page w
          = get_paginated_loop E C ep (Some ?a) (results @ items) (page + 1) ?w3"
      have m: "nat (max_pages C + 1 - (page + 1)) < nat (max_pages C + 1 - page)"
        using True by simp
      have inv: "\<forall>pg. update_page C pg (base_params (Some ?a) ?w3) = update_page C pg base"
        using less.prems by (simp add: base_params_def page_request_heap update_page_twice)
      from less.hyps [OF m inv, of "results @ items"] obtain rs where rs:
        "requests (snd (get_paginated_loop E C ep (Some ?a) (results @ items) (page + 1) ?w3))
           = requests ?w3 @ rs"
        "\<forall>r\<in>set rs. \<exists>pg. page + 1 \<le> pg \<and> pg \<le> max_pages C
                 \<and> r = (url_of C ep, Some (update_page C pg base))"
        by blast
      have "\<forall>r\<in>set (replicate j (url_of C ep, Some (update_page C page base)) @ rs).
              \<exists>pg. page \<le> pg \<and> pg \<le> max_pages C \<and> r = (url_of C ep, Some (update_page C pg base))"
      proof
        fix r assume "r \<in> set (replicate j (url_of C ep, Some (update_page C page base)) @ rs)"
        then consider "r = (url_of C ep, Some (update_page C page base))" | "r \<in> set rs"
          by auto
        then show "\<exists>pg. page \<le> pg \<and> pg \<le> max_pages C \<and> r = (url_of C ep, Some (update_page C pg base))"
        proof cases
          case 1
          with True show ?thesis by blast
        next
          case 2
          with rs(2) obtain pg where "page + 1 \<le> pg" "pg \<le> max_pages C"
              "r = (url_of C ep, Some (update_page C pg base))"
            by blast
          then show ?thesis by (intro exI [of _ pg]) simp
        qed
      qed
      with rs(1) j e show ?thesis
        by (intro exI [of _ "replicate j (url_of C ep, Some (update_page C page base)) @ rs"]) simp
    qed
  qed
qed



lemma page_request_get:
  "\<exists>w2. snd (page_request E C ep params page w)
           = get E C ep (Some (fst (page_request E C ep params page w))) w2
        \<and> requests w2 = requests w
        \<and> heap w2 (fst (page_request E C ep params page w))
            = update_page C page (base_params params w)"
proof -
  obtain a w1 where p: "params_or_new params w = (a, w1)"
    by (cases "params_or_new params w")
  then have r: "requests w1 = requests w" and h: "heap w1 a = base_params params w"
    by (auto simp add: params_or_new_def new_dict_def base_params_def split: option.splits if_splits)
  let ?w2 = "w1\<lparr>heap := (heap w1)(a := update_page C page (heap w1 a))\<rparr>"
  show ?thesis
    using r h by (intro exI [of _ ?w2]) (simp add: page_request_def p)
qed


lemma page_request_next_addr_le:
  "next_addr w \<le> next_addr (snd (snd (page_request E C ep params page w)))"
  by (auto simp add: page_request_def params_or_new_def new_dict_def get_frame
      split: option.splits)

lemma loop_heap_frame:
  assumes "b < next_addr w" and "params \<noteq> Some b \<or> heap w b = []"
  shows "heap (snd (get_paginated_loop E C ep params results page w)) b = heap w b"
  using assms
proof (induction "nat (max_pages C + 1 - page)" arbitrary: params results page w rule: less_induct)
  case less
  show ?case
  proof (cases "page \<le> max_pages C")
    case False
    then show ?thesis by (simp add: loop_exit)
  next
    case True
    let ?a = "fst (page_request E C ep params page w)"
    let ?w3 = "snd (snd (page_request E C ep params page w))"
    have ab: "?a \<noteq> b"
      using less.prems by (auto simp add: page_request_addr split: option.splits)
    then have h3: "heap ?w3 b = heap w b"
      by (simp add: page_request_heap)
    have n3: "b < next_addr ?w3"
      using less.prems(1) page_request_next_addr_le [of w E C ep params page] by simp
    from loop_step [OF True, of E ep params results w] show ?thesis
    proof (elim disjE exE)
      fix r assume "get_paginated_loop E C ep params results page w = (r, ?w3)"
      with h3 show ?thesis by simp
    next
      fix items
      assume e: "get_paginated_loop E C ep params results page w
          = get_paginated_loop E C ep (Some ?a) (results @ items) (page + 1) ?w3"
      have m: "nat (max_pages C + 1 - (page + 1)) < nat (max_pages C + 1 - page)"
        using True by simp
      have c: "Some ?a \<noteq> Some b \<or> heap ?w3 b = []"
        using ab by simp
      from less.hyps [OF m n3 c, of "results @ items"] h3 e show ?thesis
        by simp
    qed
  qed
qed

lemma loop_heap_shared:
  assumes "heap w a \<noteq> []"
    and "\<forall>pg. update_page C pg (heap w a) = update_page C pg base"
  shows "(\<exists>pg. page \<le> pg \<and> pg \<le> max_pages C
            \<and> heap (snd (get_paginated_loop E C ep (Some a) results page w)) a
                = update_page C pg base)
       \<or> (\<not> page \<le> max_pages C
            \<and> heap (snd (get_paginated_loop E C ep (Some a) results page w)) a = heap w a)"
  using assms
proof (induction "nat (max_pages C + 1 - page)" arbitrary: results page w rule: less_induct)
  case less
  show ?case
  proof (cases "page \<le> max_pages C")
    case False
    then show ?thesis by (simp add: loop_exit)
  next
    case True
    let ?w3 = "snd (snd (page_request E C ep (Some a) page w))"
    have a: "fst (page_request E C ep (Some a) page w) = a"
      using less.prems(1) by (simp add: page_request_addr)
    have h3: "heap ?w3 a = update_page C page base"
      using less.prems(2) by (simp add: page_request_heap a base_params_def)
    from loop_step [OF True, of E ep "Some a" results w] show ?thesis
    proof (elim disjE exE)
      fix r assume "get_paginated_loop E C ep (Some a) results page w = (r, ?w3)"
      with h3 True show ?thesis by auto
    next
      fix items
      assume "get_paginated_loop E C ep (Some a) results page w
          = get_paginated_loop E C ep (Some (fst (page_request E C ep (Some a) page w)))
              (results @ items) (page + 1) ?w3"
      then have e: "get_paginated_loop E C ep (Some a) results page w
          = get_paginated_loop E C ep (Some a) (results @ items) (page + 1) ?w3"
        by (simp only: a)
      have m: "nat (max_pages C + 1 - (page + 1)) < nat (max_pages C + 1 - page)"
        using True by simp
      have ne: "heap ?w3 a \<noteq> []"
        by (simp add: h3 update_page_nonempty)
      have inv: "\<forall>pg. update_page C pg (heap ?w3 a) = update_page C pg base"
        by (simp add: h3 update_page_twice)
      from less.hyps [OF m ne inv, of "results @ items"]
      show ?thesis
      proof (elim disjE exE conjE)
        fix pg assume "page + 1 \<le> pg" "pg \<le> max_pages C"
          "heap (snd (get_paginated_loop E C ep (Some a) (results @ items) (page + 1) ?w3)) a
             = update_page C pg base"
        then show ?thesis
          unfolding e by (intro disjI1 exI [of _ pg]) simp
      next
        assume "heap (snd (get_paginated_loop E C ep (Some a) (results @ items) (page + 1) ?w3)) a
             = heap ?w3 a"
        with h3 True show ?thesis
          unfolding e by (intro disjI1 exI [of _ page]) simp
      qed
    qed
  qed
qed

lemma page_request_first_success:
  assumes "k < nat (max_retries C)"
    and "\<forall>j < k. http E (length (requests w) + j) (url_of C ep)
            (Some (update_page C page (base_params params w))) = Failure"
    and "http E (length (requests w) + k) (url_of C ep)
            (Some (update_page C page (base_params params w))) = Success content"
    and "log_write E (length (requests w) + k)"
  shows "fst (snd (page_request E C ep params page w)) = Inr content
       \<and> requests (snd (snd (page_request E C ep params page w)))
           = requests w @ replicate (Suc k)
               (url_of C ep, Some (update_page C page (base_params params w)))"
proof -
  from page_request_get [of E C ep params page w] obtain w2 where w2:
    "snd (page_request E C ep params page w)
       = get E C ep (Some (fst (page_request E C ep params page w))) w2"
    "requests w2 = requests w"
    "heap w2 (fst (page_request E C ep params page w)) = update_page C page (base_params params w)"
    by blast
  have f: "\<forall>j < k. http E (length (requests w2) + j) (url_of C ep)
          (map_option (heap w2) (Some (fst (page_request E C ep params page w)))) = Failure"
    using assms(2) w2 by simp
  have s: "http E (length (requests w2) + k) (url_of C ep)
          (map_option (heap w2) (Some (fst (page_request E C ep params page w)))) = Success content"
    using assms(3) w2 by simp
  from get_first_success [OF assms(1) f s] assms(4) show ?thesis
    by (simp add: w2)
qed


text \<open>
  C3. When the request for the first page returns a non-empty list of fewer than
  \<open>page_size\<close> records, \<open>get_paginated\<close> returns exactly these records and has made that
  one request only: every HTTP attempt of the call is an attempt for page 1 (the \<open>k\<close> failed
  ones that \<open>get\<close> retries and the one that answers), and when the first attempt answers
  there is exactly one.
\<close>

theorem C3_get_paginated_short_first_page:
  assumes "1 \<le> max_pages C"
    and "k < nat (max_retries C)"
    and "\<forall>j < k. http E (length (requests w) + j) (url_of C ep)
            (Some (update_page C 1 (base_params params w))) = Failure"
    and "http E (length (requests w) + k) (url_of C ep)
            (Some (update_page C 1 (base_params params w))) = Success (JList records)"
    and "log_write E (length (requests w) + k)"
    and "records \<noteq> []" and "int (length records) < page_size C"
  shows "fst (get_paginated E C ep params w) = Inr records
       \<and> requests (snd (get_paginated E C ep params w))
           = requests w @ replicate (Suc k)
               (url_of C ep, Some (update_page C 1 (base_params params w)))
       \<and> (k = 0 \<longrightarrow> length (requests (snd (get_paginated E C ep params w)))
                      = length (requests w) + 1)"
proof -
  note r = page_request_first_success [OF assms(2,3,4,5)]
  obtain a w3 where p: "page_request E C ep params 1 w = (a, Inr (JList records), w3)"
    using r by (cases "page_request E C ep params 1 w") auto
  have w3: "requests w3 = requests w @ replicate (Suc k)
               (url_of C ep, Some (update_page C 1 (base_params params w)))"
    using r by (simp add: p)
  have "get_paginated E C ep params w = (Inr records, w3)"
    unfolding get_paginated_def loop_unfold [of E C ep params "[]" 1 w]
    using assms(1,6,7) by (simp add: p)
  then show ?thesis
    using w3 by simp
qed

theorem C3_get_paginated_short_first_page_witness:
  "fst (get_paginated env_short_page client0 (ustr ''users'') None world0)
     = Inr [JObj [(ustr ''id'', JInt 1)], JObj [(ustr ''id'', JInt 2)]]
   \<and> length (requests (snd (get_paginated env_short_page client0 (ustr ''users'') None world0))) = 1"
proof -
  have 1: "1 \<le> max_pages client0" by (simp add: client0_def)
  have 2: "0 < nat (max_retries client0)" by (simp add: client0_def)
  have 3: "\<forall>j < (0::nat). http env_short_page (length (requests world0) + j) (url_of client0 (ustr ''users''))
            (Some (update_page client0 1 (base_params None world0))) = Failure"
    by simp
  have 4: "http env_short_page (length (requests world0) + 0) (url_of client0 (ustr ''users''))
            (Some (update_page client0 1 (base_params None world0)))
           = Success (JList [JObj [(ustr ''id'', JInt 1)], JObj [(ustr ''id'', JInt 2)]])"
    by (simp add: env_short_page_def two_records_def)
  have 5: "log_write env_short_page (length (requests world0) + 0)"
    by (simp add: env_short_page_def)
  have 6: "[JObj [(ustr ''id'', JInt 1)], JObj [(ustr ''id'', JInt 2)]] \<noteq> []"
    by simp
  have 7: "int (length [JObj [(ustr ''id'', JInt 1)], JObj [(ustr ''id'', JInt 2)]]) < page_size client0"
    by (simp add: client0_def)
  show ?thesis
    using C3_get_paginated_short_first_page [OF 1 2 3 4 5 6 7]
    by (simp add: world0_def)
qed



lemma map_of_dict_set:
  "map_of (dict_set k v d) key = (if key = k then Some v else map_of d key)"
  by (induction d) auto

lemma map_of_update_page:
  "map_of (update_page C pg d) key =
     (if key = ustr ''_limit'' then Some (JInt (page_size C))
      else if key = ustr ''_page'' then Some (JInt pg) else map_of d key)"
  by (simp add: update_page_def map_of_dict_set)

text \<open>
  C10, at a concrete run: the caller passes the dictionary \<open>{'userId': 1}\<close>; after the call
  the same dictionary also holds \<open>_page\<close> and \<open>_limit\<close>.
\<close>

theorem C10_get_paginated_params_counterexample:
  "heap world_with_params 0 = [(ustr ''userId'', JInt 1)]
   \<and> heap (snd (get_paginated env_short_page client0 (ustr ''posts'') (Some 0) world_with_params)) 0
       = [(ustr ''userId'', JInt 1), (ustr ''_page'', JInt 1), (ustr ''_limit'', JInt 100)]"
  by code_simp

text \<open>
  C10, as the code has it. \<open>get_paginated\<close> keeps one parameter dictionary for the whole
  call and sets \<open>_page\<close> and \<open>_limit\<close> in it before each page. A non-empty dictionary of the
  caller is that very dictionary: after the call it holds the caller's entries with \<open>_page\<close>
  (of a page that was requested) and \<open>_limit\<close> set. Any other dictionary of the caller,
  also an empty one passed as \<open>params\<close>, is unchanged. Every request of the call carries
  the caller's entries with \<open>_page\<close> set to the page and \<open>_limit\<close> to \<open>page_size\<close>, and
  nothing else.
\<close>

theorem C10_get_paginated_params:
  "(heap w a \<noteq> [] \<and> 1 \<le> max_pages C
      \<longrightarrow> (\<exists>pg. 1 \<le> pg \<and> pg \<le> max_pages C
             \<and> heap (snd (get_paginated E C ep (Some a) w)) a = update_page C pg (heap w a)))
   \<and> (b < next_addr w \<and> (params \<noteq> Some b \<or> heap w b = [])
      \<longrightarrow> heap (snd (get_paginated E C ep params w)) b = heap w b)
   \<and> (\<exists>rs. requests (snd (get_paginated E C ep params w)) = requests w @ rs
          \<and> (\<forall>r\<in>set rs. \<exists>pg. 1 \<le> pg \<and> pg \<le> max_pages C
                 \<and> r = (url_of C ep, Some (update_page C pg (base_params params w)))))
   \<and> map_of (update_page C pg d) key
       = (if key = ustr ''_limit'' then Some (JInt (page_size C))
          else if key = ustr ''_page'' then Some (JInt pg) else map_of d key)"
proof (intro conjI impI)
  assume h: "heap w a \<noteq> [] \<and> 1 \<le> max_pages C"
  then have ne: "heap w a \<noteq> []" by simp
  have inv: "\<forall>pg. update_page C pg (heap w a) = update_page C pg (heap w a)"
    by simp
  from loop_heap_shared [OF ne inv, of 1 E ep "[]"] h
  show "\<exists>pg. 1 \<le> pg \<and> pg \<le> max_pages C
             \<and> heap (snd (get_paginated E C ep (Some a) w)) a = update_page C pg (heap w a)"
    by (simp add: get_paginated_def)
next
  assume "b < next_addr w \<and> (params \<noteq> Some b \<or> heap w b = [])"
  then show "heap (snd (get_paginated E C ep params w)) b = heap w b"
    by (simp add: get_paginated_def loop_heap_frame)
next
  have inv: "\<forall>pg. update_page C pg (base_params params w) = update_page C pg (base_params params w)"
    by simp
  from loop_requests [OF inv, of E ep "[]" 1]
  show "\<exists>rs. requests (snd (get_paginated E C ep params w)) = requests w @ rs
          \<and> (\<forall>r\<in>set rs. \<exists>pg. 1 \<le> pg \<and> pg \<le> max_pages C
                 \<and> r = (url_of C ep, Some (update_page C pg (base_params params w))))"
    by (simp add: get_paginated_def)
next
  show "map_of (update_page C pg d) key
       = (if key = ustr ''_limit'' then Some (JInt (page_size C))
          else if key = ustr ''_page'' then Some (JInt pg) else map_of d key)"
    by (rule map_of_update_page)
qed

theorem C10_get_paginated_params_witness:
  "(\<exists>pg. 1 \<le> pg \<and> pg \<le> max_pages client0
       \<and> heap (snd (get_paginated env_short_page client0 (ustr ''posts'') (Some 0) world_with_params)) 0
           = update_page client0 pg [(ustr ''userId'', JInt 1)])
   \<and> heap (snd (get_paginated env_short_page client0 (ustr ''posts'') None world_with_params)) 0
       = [(ustr ''userId'', JInt 1)]"
proof -
  have a: "heap world_with_params 0 \<noteq> [] \<and> 1 \<le> max_pages client0"
    by (simp add: world_with_params_def client0_def)
  have b: "(0::nat) < next_addr world_with_params \<and> (None \<noteq> Some (0::nat) \<or> heap world_with_params 0 = [])"
    by (simp add: world_with_params_def)
  have h: "heap world_with_params 0 = [(ustr ''userId'', JInt 1)]"
    by (simp add: world_with_params_def)
  show ?thesis
    using C10_get_paginated_params [of world_with_params 0 client0 env_short_page "ustr ''posts''" 0 None] a
      C10_get_paginated_params [of world_with_params 0 client0 env_short_page "ustr ''posts''" 0 None] b
    by (simp add: h)
qed

section \<open>Normalisation: theorems\<close>

lemma process_users_loop_eq:
  "process_users_loop V raw acc =
     (if list_ex (handler_raises V) raw then Inl ValueError
      else Inr (acc @ List.map_filter (accepted V) raw))"
proof (induction raw arbitrary: acc)
  case Nil
  show ?case by (simp add: List.map_filter_simps)
next
  case (Cons user rest)
  show ?case
  proof (cases "map_of user (ustr ''id'') \<noteq> None \<and> map_of user (ustr ''name'') \<noteq> None")
    case False
    then have "accepted V user = None" and "\<not> handler_raises V user"
      by (auto simp add: accepted_def handler_raises_def)
    with False Cons.IH [of acc] show ?thesis
      by (auto simp add: List.map_filter_simps)
  next
    case True
    show ?thesis
    proof (cases "UserModel V user")
      case (Some u)
      with True have "accepted V user = Some u" and "\<not> handler_raises V user"
        by (auto simp add: accepted_def handler_raises_def)
      with True Some Cons.IH [of "acc @ [u]"] show ?thesis
        by (auto simp add: List.map_filter_simps)
    next
      case None
      with True have a: "accepted V user = None"
        and h: "handler_raises V user \<longleftrightarrow> \<not> v_error_json V user"
        by (auto simp add: accepted_def handler_raises_def)
      show ?thesis
      proof (cases "v_error_json V user")
        case True
        with \<open>map_of user (ustr ''id'') \<noteq> None \<and> map_of user (ustr ''name'') \<noteq> None\<close>
          None a h Cons.IH [of acc] show ?thesis
          by (auto simp add: List.map_filter_simps)
      next
        case False
        with \<open>map_of user (ustr ''id'') \<noteq> None \<and> map_of user (ustr ''name'') \<noteq> None\<close>
          None h show ?thesis
          by auto
      qed
    qed
  qed
qed

lemma process_users_eq:
  "process_users V raw =
     (if list_ex (handler_raises V) raw then Inl ValueError
      else Inr (List.map_filter (accepted V) raw))"
  by (simp add: process_users_def process_users_loop_eq)

lemma map_filter_append: "List.map_filter f (xs @ ys) = List.map_filter f xs @ List.map_filter f ys"
  by (simp add: List.map_filter_def)

lemma lacking_skipped:
  assumes "map_of user (ustr ''id'') = None \<or> map_of user (ustr ''name'') = None"
  shows "accepted V user = None" and "\<not> handler_raises V user"
  using assms by (auto simp add: accepted_def handler_raises_def)

lemma spec_example_rejected:
  "List.map_filter (accepted V) spec_example = []"
  by (simp add: List.map_filter_simps spec_example_def accepted_def UserModel_def required_def
      ustr_def)

lemma spec_example_raises:
  "list_ex (handler_raises V) spec_example
     \<longleftrightarrow> \<not> (v_error_json V (spec_example ! 0) \<and> v_error_json V (spec_example ! 2))"
  by (simp add: spec_example_def handler_raises_def UserModel_def required_def ustr_def)

text \<open>
  The handler's exception at a concrete input: the first record has \<open>id\<close> and \<open>name\<close>, is
  rejected by the model, and its error cannot be serialised; \<open>process_users\<close> raises.
\<close>

lemma process_users_surrogate:
  "process_users plain_validators surrogate_example = Inl ValueError"
  by (simp add: process_users_def surrogate_example_def UserModel_def required_def
      plain_validators_def no_surrogate_def ustr_def)

text \<open>
  C2, as the code has it. A record without \<open>id\<close> or \<open>name\<close> is skipped without raising: the
  call behaves as if the record were not in the input. The valid records are kept in input
  order: a result is the records that the model accepts, in the order of the input, and
  it is returned whenever the error of every rejected record can be logged. The three
  records of the specification's example are not mapped to the ids \<open>[1, 3]\<close>: the first
  and the third have neither \<open>username\<close> nor \<open>email\<close>, which the model requires, so they are
  rejected and the result is empty. With these two fields added to the first and third
  record the result has the ids \<open>[1, 3]\<close>, whenever the validation accepts a JSON integer
  for \<open>int\<close> and a JSON string for \<open>str\<close>.
\<close>

theorem C2_process_users:
  "(map_of user (ustr ''id'') = None \<or> map_of user (ustr ''name'') = None
      \<longrightarrow> process_users V (before @ user # after) = process_users V (before @ after))
   \<and> (process_users V raw = Inr users \<longrightarrow> users = List.map_filter (accepted V) raw)
   \<and> ((\<forall>r \<in> set raw. UserModel V r = None \<longrightarrow> v_error_json V r)
      \<longrightarrow> process_users V raw = Inr (List.map_filter (accepted V) raw))
   \<and> (accepted V user = Some u \<and> process_users V before = Inr us
        \<and> process_users V after = Inr vs
      \<longrightarrow> process_users V (before @ user # after) = Inr (us @ u # vs))
   \<and> (process_users V spec_example = Inr users \<longrightarrow> users = [])
   \<and> (v_error_json V (spec_example ! 0) \<and> v_error_json V (spec_example ! 2)
      \<longrightarrow> process_users V spec_example = Inr [])
   \<and> ((\<forall>i. v_int V (JInt i) = Some i) \<and> (\<forall>s. v_str V (JStr s) = Some s)
      \<longrightarrow> (\<exists>kept. process_users V full_example = Inr kept \<and> map uid kept = [1, 3]))"
proof (intro conjI impI)
  assume "map_of user (ustr ''id'') = None \<or> map_of user (ustr ''name'') = None"
  from lacking_skipped [OF this, of V]
  show "process_users V (before @ user # after) = process_users V (before @ after)"
    by (simp add: process_users_eq map_filter_append List.map_filter_simps)
next
  assume "process_users V raw = Inr users"
  then show "users = List.map_filter (accepted V) raw"
    by (simp add: process_users_eq split: if_splits)
next
  assume "\<forall>r \<in> set raw. UserModel V r = None \<longrightarrow> v_error_json V r"
  then have "\<not> list_ex (handler_raises V) raw"
    by (auto simp add: list_ex_iff handler_raises_def)
  then show "process_users V raw = Inr (List.map_filter (accepted V) raw)"
    by (simp add: process_users_eq)
next
  assume h: "accepted V user = Some u \<and> process_users V before = Inr us
        \<and> process_users V after = Inr vs"
  then have "\<not> handler_raises V user"
    by (auto simp add: accepted_def handler_raises_def split: if_splits)
  with h show "process_users V (before @ user # after) = Inr (us @ u # vs)"
    by (auto simp add: process_users_eq map_filter_append List.map_filter_simps split: if_splits)
next
  assume "process_users V spec_example = Inr users"
  then show "users = []"
    by (simp add: process_users_eq spec_example_rejected split: if_splits)
next
  assume "v_error_json V (spec_example ! 0) \<and> v_error_json V (spec_example ! 2)"
  then show "process_users V spec_example = Inr []"
    by (simp add: process_users_eq spec_example_rejected spec_example_raises)
next
  assume "(\<forall>i. v_int V (JInt i) = Some i) \<and> (\<forall>s. v_str V (JStr s) = Some s)"
  then have "process_users V full_example
      = Inr [\<lparr>uid = 1, name = ustr ''A'', username = ustr ''a'', email = ustr ''a@x.org'',
               posts = [], post_count = 0, avg_chars = 0\<rparr>,
             \<lparr>uid = 3, name = ustr ''C'', username = ustr ''c'', email = ustr ''c@x.org'',
               posts = [], post_count = 0, avg_chars = 0\<rparr>]"
    by (simp add: process_users_def full_example_def UserModel_def required_def
        with_default_def ustr_def)
  then show "\<exists>kept. process_users V full_example = Inr kept \<and> map uid kept = [1, 3]"
    by simp
qed

text \<open>
  C2, at the input of the claim: the result is the empty list, not the entities 1 and 3.
\<close>

theorem C2_process_users_counterexample:
  "process_users plain_validators spec_example = Inr []"
  by (simp add: process_users_def spec_example_def UserModel_def required_def
      plain_validators_def no_surrogate_def ustr_def)

theorem C2_process_users_witness:
  "process_users plain_validators [[(ustr ''name'', JStr (ustr ''B''))]] = Inr []
   \<and> process_users plain_validators
       [[(ustr ''id'', JInt 1), (ustr ''name'', JStr (ustr ''A'')),
         (ustr ''username'', JStr (ustr ''a'')), (ustr ''email'', JStr (ustr ''a@x.org''))]]
       = Inr [\<lparr>uid = 1, name = ustr ''A'', username = ustr ''a'', email = ustr ''a@x.org'',
           posts = [], post_count = 0, avg_chars = 0\<rparr>]
   \<and> process_users plain_validators spec_example = Inr []
   \<and> (\<exists>kept. process_users plain_validators full_example = Inr kept \<and> map uid kept = [1, 3])"
proof -
  let ?b = "[(ustr ''name'', JStr (ustr ''B''))]"
  let ?a = "[(ustr ''id'', JInt 1), (ustr ''name'', JStr (ustr ''A'')),
         (ustr ''username'', JStr (ustr ''a'')), (ustr ''email'', JStr (ustr ''a@x.org''))]"
  let ?u = "\<lparr>uid = 1, name = ustr ''A'', username = ustr ''a'', email = ustr ''a@x.org'',
           posts = [], post_count = 0, avg_chars = 0\<rparr>"
  have e: "process_users plain_validators [] = Inr []"
    by (simp add: process_users_def)
  have 1: "map_of ?b (ustr ''id'') = None \<or> map_of ?b (ustr ''name'') = None"
    by (simp add: ustr_def)
  have "accepted plain_validators ?a = Some ?u"
    by (simp add: accepted_def UserModel_def required_def with_default_def plain_validators_def
        ustr_def)
  with e have 2: "accepted plain_validators ?a = Some ?u
      \<and> process_users plain_validators [] = Inr []
      \<and> process_users plain_validators [] = Inr []"
    by blast
  have 3: "v_error_json plain_validators (spec_example ! 0)
      \<and> v_error_json plain_validators (spec_example ! 2)"
    by (simp add: spec_example_def plain_validators_def no_surrogate_def ustr_def)
  have 4: "(\<forall>i. v_int plain_validators (JInt i) = Some i)
       \<and> (\<forall>s. v_str plain_validators (JStr s) = Some s)"
    by (simp add: plain_validators_def)
  note skip = C2_process_users [where V = plain_validators and user = ?b and before = "[]"
      and after = "[]"]
  note keep = C2_process_users [where V = plain_validators and user = ?a and before = "[]"
      and after = "[]" and u = ?u and us = "[]" and vs = "[]"]
  from skip 1 have a: "process_users plain_validators ([] @ ?b # [])
      = process_users plain_validators ([] @ [])"
    by blast
  from keep 2 have b: "process_users plain_validators ([] @ ?a # []) = Inr ([] @ ?u # [])"
    by blast
  from keep 3 have c: "process_users plain_validators spec_example = Inr []"
    by blast
  from keep 4 have d: "\<exists>kept. process_users plain_validators full_example = Inr kept
      \<and> map uid kept = [1, 3]"
    by blast
  show ?thesis
    using a b c d by (simp add: e)
qed

end
